theory Spec2Isabelle
  imports Main
begin

section \<open>Strings\<close>

text \<open>
  A Python \<open>str\<close> is a sequence of Unicode code points, and \<open>len\<close> counts code
  points.  The characters the program tests for lie outside ASCII, so a string is a list
  of code points here.  \<open>asc\<close> embeds an ASCII literal.
\<close>

type_synonym codepoint = nat
type_synonym ustr = "codepoint list"

definition asc :: "string \<Rightarrow> ustr" where
  "asc s = map of_char s"

text \<open>
  \<open>str.isspace\<close>, which decides what \<open>str.strip()\<close> removes and what \<open>\s\<close>
  matches in a \<open>str\<close> pattern: the 29 white-space code points of Unicode.
\<close>

definition is_space :: "codepoint \<Rightarrow> bool" where
  "is_space c \<longleftrightarrow>
     (9 \<le> c \<and> c \<le> 13) \<or> (28 \<le> c \<and> c \<le> 32) \<or> c = 133 \<or> c = 160 \<or> c = 5760 \<or>
     (8192 \<le> c \<and> c \<le> 8202) \<or> c = 8232 \<or> c = 8233 \<or> c = 8239 \<or> c = 8287 \<or>
     c = 12288"

text \<open>\<open>s.strip()\<close>: white space is dropped at both ends.\<close>

definition strip :: "ustr \<Rightarrow> ustr" where
  "strip s = rev (dropWhile is_space (rev (dropWhile is_space s)))"

text \<open>The class \<open>[0-9]\<close>.\<close>

definition is_digit09 :: "codepoint \<Rightarrow> bool" where
  "is_digit09 c \<longleftrightarrow> 48 \<le> c \<and> c \<le> 57"

section \<open>Title normalizer: \<open>clean_chapter_title\<close>\<close>

text \<open>
  The code points named by the two patterns of \<open>clean_chapter_title\<close>:
  \<open>(\<close> 40, \<open>)\<close> 41, full-width parentheses U+FF08 and U+FF09, lenticular brackets
  U+3010 and U+3011, hyphen 45, em dash U+2014, the ordinal prefix U+7B2C and the three
  unit glyphs U+9875, U+7AE0, U+7BC0.  Line feed is 10.
\<close>

definition is_dash :: "codepoint \<Rightarrow> bool" where
  "is_dash c \<longleftrightarrow> c = 45 \<or> c = 8212"

definition is_unit :: "codepoint \<Rightarrow> bool" where
  "is_unit c \<longleftrightarrow> c = 39029 \<or> c = 31456 \<or> c = 31680"

definition closer :: "codepoint \<Rightarrow> codepoint option" where
  "closer c = (if c = 40 then Some 41 else if c = 65288 then Some 65289
               else if c = 12304 then Some 12305 else None)"

text \<open>
  After an opening bracket, the rest of an alternative is \<open>.*?\<close> followed by the
  closing bracket \<open>c\<close>: the lazy star stops at the first \<open>c\<close>, and \<open>.\<close> does not
  match a line feed, so the alternative matches exactly when \<open>c\<close> comes before any line
  feed.  The result is the text after the match.
\<close>

fun closes :: "codepoint \<Rightarrow> ustr \<Rightarrow> ustr option" where
  "closes c [] = None"
| "closes c (x # xs) = (if x = c then Some xs else if x = 10 then None else closes c xs)"

definition bracket_span :: "ustr \<Rightarrow> ustr option" where
  "bracket_span s = (case s of [] \<Rightarrow> None
     | x # xs \<Rightarrow> (case closer x of None \<Rightarrow> None | Some c \<Rightarrow> closes c xs))"

lemma closes_length: "closes c xs = Some r \<Longrightarrow> length r < Suc (length xs)"
  by (induction xs) (auto split: if_splits)

lemma bracket_span_length: "bracket_span s = Some r \<Longrightarrow> length r < length s"
  by (auto simp: bracket_span_def split: list.splits option.splits dest: closes_length)

text \<open>
  \<open>re.sub(pattern, "", title)\<close> for the bracket pattern: scan from the left, delete
  each match and go on after it; a character where no match starts is kept.
\<close>

function sub_brackets :: "ustr \<Rightarrow> ustr" where
  "sub_brackets [] = []"
| "sub_brackets (x # xs) =
     (case bracket_span (x # xs) of Some r \<Rightarrow> sub_brackets r
      | None \<Rightarrow> x # sub_brackets xs)"
  by pat_completeness auto
termination
  by (relation "measure length") (auto dest: bracket_span_length)

text \<open>
  The page-marker pattern at the start of \<open>s\<close>: a dash, \<open>\s*\<close>, an optional ordinal
  prefix, \<open>[0-9]+\<close> and an optional unit glyph.  Every part is greedy and no two
  neighbouring parts share a character, so backtracking never finds a match that the
  greedy pass misses.  The result is the text after the match.
\<close>

definition skip_prefix :: "ustr \<Rightarrow> ustr" where
  "skip_prefix a = (case a of [] \<Rightarrow> a | y # ys \<Rightarrow> if y = 31532 then ys else a)"

definition skip_unit :: "ustr \<Rightarrow> ustr" where
  "skip_unit c = (case c of [] \<Rightarrow> c | z # zs \<Rightarrow> if is_unit z then zs else c)"

definition page_marker :: "ustr \<Rightarrow> ustr option" where
  "page_marker s = (case s of [] \<Rightarrow> None
     | x # xs \<Rightarrow>
        if is_dash x then
          (let b = skip_prefix (dropWhile is_space xs)
           in if takeWhile is_digit09 b = [] then None
              else Some (skip_unit (dropWhile is_digit09 b)))
        else None)"

lemma dropWhile_length_le: "length (dropWhile P xs) \<le> length xs"
  by (induction xs) auto

lemma skip_prefix_length: "length (skip_prefix a) \<le> length a"
  by (cases a) (auto simp: skip_prefix_def)

lemma skip_unit_length: "length (skip_unit a) \<le> length a"
  by (cases a) (auto simp: skip_unit_def)

lemma page_marker_length: "page_marker s = Some r \<Longrightarrow> length r < length s"
proof -
  assume a: "page_marker s = Some r"
  then obtain x xs where s: "s = x # xs" by (cases s) (auto simp: page_marker_def)
  from a have r: "r = skip_unit (dropWhile is_digit09 (skip_prefix (dropWhile is_space xs)))"
    unfolding s page_marker_def by (simp add: Let_def split: if_splits)
  have "length r \<le> length (dropWhile is_digit09 (skip_prefix (dropWhile is_space xs)))"
    unfolding r by (rule skip_unit_length)
  also have "\<dots> \<le> length (skip_prefix (dropWhile is_space xs))"
    by (rule dropWhile_length_le)
  also have "\<dots> \<le> length (dropWhile is_space xs)"
    by (rule skip_prefix_length)
  also have "\<dots> \<le> length xs"
    by (rule dropWhile_length_le)
  finally show ?thesis using s by simp
qed

function sub_page_markers :: "ustr \<Rightarrow> ustr" where
  "sub_page_markers [] = []"
| "sub_page_markers (x # xs) =
     (case page_marker (x # xs) of Some r \<Rightarrow> sub_page_markers r
      | None \<Rightarrow> x # sub_page_markers xs)"
  by pat_completeness auto
termination
  by (relation "measure length") (auto dest: page_marker_length)

definition clean_chapter_title :: "ustr \<Rightarrow> ustr" where
  "clean_chapter_title title = strip (sub_page_markers (sub_brackets title))"

text \<open>
  A string contains a bracket span, or a page marker, when one of the two patterns
  matches at some place of it.
\<close>

fun has_bracket_span :: "ustr \<Rightarrow> bool" where
  "has_bracket_span [] = False"
| "has_bracket_span (x # xs) = (bracket_span (x # xs) \<noteq> None \<or> has_bracket_span xs)"

fun has_page_marker :: "ustr \<Rightarrow> bool" where
  "has_page_marker [] = False"
| "has_page_marker (x # xs) = (page_marker (x # xs) \<noteq> None \<or> has_page_marker xs)"


section \<open>The parsed page\<close>

text \<open>
  The HTML parser is an external collaborator.  Its result is modelled as the tree the
  program walks: an element carries its tag name (lower case, as the parser delivers it)
  and the three attributes the program reads, \<open>id\<close>, \<open>class\<close> (a multi-valued
  attribute: the list of its white-space separated tokens) and \<open>href\<close>.  \<open>Text\<close> is a
  string that \<open>get_text\<close> returns; \<open>Comment\<close> stands for a string that it skips
  (a comment or declaration and, in current versions of the parser library, the body of a
  script or style element).  The document itself is an element named \<open>[document]\<close>.
\<close>

datatype node =
    Text ustr
  | Comment ustr
  | Elem ustr "ustr option" "ustr list" "ustr option" "node list"

fun tag :: "node \<Rightarrow> ustr option" where
  "tag (Elem n i c h ks) = Some n"
| "tag _ = None"

fun ident :: "node \<Rightarrow> ustr option" where
  "ident (Elem n i c h ks) = i"
| "ident _ = None"

fun classes :: "node \<Rightarrow> ustr list" where
  "classes (Elem n i c h ks) = c"
| "classes _ = []"

fun href :: "node \<Rightarrow> ustr option" where
  "href (Elem n i c h ks) = h"
| "href _ = None"

text \<open>All nodes below a node, in document order.\<close>

fun descendants :: "node \<Rightarrow> node list" where
  "descendants (Elem n i c h ks) = concat (map (\<lambda>k. k # descendants k) ks)"
| "descendants _ = []"

text \<open>\<open>soup.find(...)\<close>: the first element below the node, in document order, that
  meets the criteria; \<open>None\<close> when there is none.\<close>

definition soup_find :: "(node \<Rightarrow> bool) \<Rightarrow> node \<Rightarrow> node option" where
  "soup_find P n = List.find P (descendants n)"

text \<open>\<open>"".join\<close> and \<open>"\n".join\<close>.\<close>

fun str_join :: "ustr \<Rightarrow> ustr list \<Rightarrow> ustr" where
  "str_join sep [] = []"
| "str_join sep [x] = x"
| "str_join sep (x # y # ys) = x @ sep @ str_join sep (y # ys)"

text \<open>
  \<open>element.get_text(sep, strip=True)\<close>: every text string below the element is
  stripped, the empty ones are dropped, and the rest are joined with the separator.
\<close>

fun strings :: "node \<Rightarrow> ustr list" where
  "strings (Text s) = [s]"
| "strings (Comment s) = []"
| "strings (Elem n i c h ks) = concat (map strings ks)"

definition get_text :: "ustr \<Rightarrow> node \<Rightarrow> ustr" where
  "get_text sep n = str_join sep (filter (\<lambda>s. s \<noteq> []) (map strip (strings n)))"

text \<open>
  \<open>element.string\<close>: the only child if it is a string, the \<open>string\<close> of the only
  child if it is an element, and \<open>None\<close> when there are no or several children.
\<close>

fun string_of :: "node \<Rightarrow> ustr option" where
  "string_of (Text s) = Some s"
| "string_of (Comment s) = Some s"
| "string_of (Elem n i c h []) = None"
| "string_of (Elem n i c h [k]) = string_of k"
| "string_of (Elem n i c h (k # k' # ks)) = None"

text \<open>
  \<open>for elem in content.find_all(names): elem.decompose()\<close>: every element below
  the root whose tag name is in the list is taken out of the tree with all it contains.
  The root itself is not among the results of \<open>find_all\<close>.
\<close>

definition named :: "ustr list \<Rightarrow> node \<Rightarrow> bool" where
  "named names k \<longleftrightarrow> (case tag k of None \<Rightarrow> False | Some n \<Rightarrow> n \<in> set names)"

fun decompose_all :: "ustr list \<Rightarrow> node \<Rightarrow> node" where
  "decompose_all names (Elem n i c h ks) =
     Elem n i c h (map (decompose_all names) (filter (\<lambda>k. \<not> named names k) ks))"
| "decompose_all names k = k"

text \<open>
  \<open>decompose\<close> changes the tree that the document holds.  \<open>replace_first P f soup\<close>
  is the document in which the element that \<open>soup_find P\<close> returns stands replaced
  by its image under \<open>f\<close>; the search goes through the elements in document order, an
  element before what it contains.
\<close>

fun replace_in_node :: "(node \<Rightarrow> bool) \<Rightarrow> (node \<Rightarrow> node) \<Rightarrow> node \<Rightarrow> node option"
  and replace_in_list :: "(node \<Rightarrow> bool) \<Rightarrow> (node \<Rightarrow> node) \<Rightarrow> node list \<Rightarrow> node list option"
where
  "replace_in_node P f (Elem n i c h ks) = map_option (Elem n i c h) (replace_in_list P f ks)"
| "replace_in_node P f (Text s) = None"
| "replace_in_node P f (Comment s) = None"
| "replace_in_list P f [] = None"
| "replace_in_list P f (k # ks) =
     (if P k then Some (f k # ks)
      else case replace_in_node P f k of
             Some k' \<Rightarrow> Some (k' # ks)
           | None \<Rightarrow> map_option ((#) k) (replace_in_list P f ks))"

definition replace_first :: "(node \<Rightarrow> bool) \<Rightarrow> (node \<Rightarrow> node) \<Rightarrow> node \<Rightarrow> node" where
  "replace_first P f soup = (case replace_in_node P f soup of None \<Rightarrow> soup | Some soup' \<Rightarrow> soup')"

section \<open>Title extractor: \<open>extract_chapter_title\<close>\<close>

definition has_tag :: "ustr \<Rightarrow> node \<Rightarrow> bool" where
  "has_tag name k \<longleftrightarrow> tag k = Some name"

text \<open>The sentinel of the last branch: five code points, "untitled chapter".\<close>

definition untitled :: ustr where
  "untitled = [26410, 21629, 21517, 31456, 33410]"

text \<open>
  The second branch keeps the part of the document title before the first separator
  (hyphen, bar, underscore or em dash: element 0 of the result of \<open>re.split\<close>),
  strips it and normalizes it.  \<open>soup.title\<close> is the first \<open>title\<close> element.
\<close>

definition is_title_sep :: "codepoint \<Rightarrow> bool" where
  "is_title_sep c \<longleftrightarrow> c = 45 \<or> c = 124 \<or> c = 95 \<or> c = 8212"

definition first_segment :: "ustr \<Rightarrow> ustr" where
  "first_segment t = takeWhile (\<lambda>c. \<not> is_title_sep c) t"

definition title_from_document :: "node \<Rightarrow> ustr" where
  "title_from_document soup =
     (case soup_find (has_tag (asc ''title'')) soup of
        Some t \<Rightarrow> clean_chapter_title (strip (first_segment (get_text [] t)))
      | None \<Rightarrow> untitled)"

definition extract_chapter_title :: "node \<Rightarrow> ustr" where
  "extract_chapter_title soup =
     (case soup_find (has_tag (asc ''h1'')) soup of
        Some h1 \<Rightarrow>
          if get_text [] h1 \<noteq> [] then clean_chapter_title (get_text [] h1)
          else title_from_document soup
      | None \<Rightarrow> title_from_document soup)"

section \<open>Content extractor: \<open>extract_main_content\<close>\<close>

text \<open>
  The seven selectors, in the order of the source.  A string criterion on \<open>id\<close>
  asks for equality; on \<open>class\<close> it asks for a token equal to it.  A compiled pattern
  is applied with \<open>search\<close>, and both patterns are alternatives of plain words, so it
  asks for one of the words to occur inside the attribute value (inside one of the
  tokens, for \<open>class\<close>).
\<close>

datatype selector =
    ById ustr ustr
  | ByClass ustr ustr
  | ByName ustr
  | ByClassPattern ustr "ustr list"
  | ByIdPattern ustr "ustr list"

definition selectors :: "selector list" where
  "selectors =
     [ById (asc ''div'') (asc ''content''),
      ByClass (asc ''div'') (asc ''content''),
      ById (asc ''div'') (asc ''chapter-content''),
      ByClass (asc ''div'') (asc ''chapter-content''),
      ByName (asc ''article''),
      ByClassPattern (asc ''div'') [asc ''read'', asc ''text'', asc ''article''],
      ByIdPattern (asc ''div'') [asc ''content'', asc ''chapter'']]"

fun starts_with :: "ustr \<Rightarrow> ustr \<Rightarrow> bool" where
  "starts_with [] s = True"
| "starts_with (p # ps) [] = False"
| "starts_with (p # ps) (x # xs) = (p = x \<and> starts_with ps xs)"

fun occurs_in :: "ustr \<Rightarrow> ustr \<Rightarrow> bool" where
  "occurs_in p [] = (p = [])"
| "occurs_in p (x # xs) = (starts_with p (x # xs) \<or> occurs_in p xs)"

fun matches :: "selector \<Rightarrow> node \<Rightarrow> bool" where
  "matches (ById name v) k = (has_tag name k \<and> ident k = Some v)"
| "matches (ByClass name v) k = (has_tag name k \<and> v \<in> set (classes k))"
| "matches (ByName name) k = has_tag name k"
| "matches (ByClassPattern name ws) k =
     (has_tag name k \<and> (\<exists>c \<in> set (classes k). \<exists>w \<in> set ws. occurs_in w c))"
| "matches (ByIdPattern name ws) k =
     (has_tag name k \<and> (case ident k of None \<Rightarrow> False
                                     | Some v \<Rightarrow> \<exists>w \<in> set ws. occurs_in w v))"

text \<open>
  The loop over the selectors: the first element a selector finds is the root when its
  stripped text is longer than 100 characters; otherwise the next selector is tried.
\<close>

fun content_root :: "selector list \<Rightarrow> node \<Rightarrow> node option" where
  "content_root [] soup = None"
| "content_root (sel # sels) soup =
     (case soup_find (matches sel) soup of
        Some content \<Rightarrow>
          if length (get_text [] content) > 100 then Some content
          else content_root sels soup
      | None \<Rightarrow> content_root sels soup)"

text \<open>The list handed to \<open>find_all\<close>; its third entry is the text \<open>div.ad\<close>.\<close>

definition unwanted :: "ustr list" where
  "unwanted = [asc ''script'', asc ''style'', asc ''div.ad'', asc ''ins'', asc ''iframe'']"

definition extract_main_content :: "node \<Rightarrow> ustr option" where
  "extract_main_content soup =
     (case content_root selectors soup of
        None \<Rightarrow> None
      | Some content \<Rightarrow> Some (get_text [10] (decompose_all unwanted content)))"


text \<open>
  The call also changes the document it is given: the unwanted elements are removed
  inside the tree, and what \<open>process_page\<close> reads from the document afterwards it
  reads from the changed tree.  \<open>decompose_root\<close> is the same loop as
  \<open>content_root\<close>, with the document after the call as its value: the chosen root
  stands replaced by what the removal leaves of it, and a document without qualifying
  root is unchanged.
\<close>

fun decompose_root :: "selector list \<Rightarrow> node \<Rightarrow> node" where
  "decompose_root [] soup = soup"
| "decompose_root (sel # sels) soup =
     (case soup_find (matches sel) soup of
        Some content \<Rightarrow>
          if length (get_text [] content) > 100
          then replace_first (matches sel) (decompose_all unwanted) soup
          else decompose_root sels soup
      | None \<Rightarrow> decompose_root sels soup)"

definition soup_after_content :: "node \<Rightarrow> node" where
  "soup_after_content soup = decompose_root selectors soup"

section \<open>Next-link resolver: \<open>extract_next_page\<close>\<close>

text \<open>
  Case-insensitive comparison.  The program compares only against the ASCII words
  \<open>Next\<close>, \<open>page\<close> and \<open>p\<close>, and no code point outside ASCII lower-cases to, or
  matches without regard to case, one of their letters; so lower-casing the 26 ASCII
  capitals is all that \<open>str.lower\<close> and \<open>re.IGNORECASE\<close> contribute here.
\<close>

definition ascii_lower :: "codepoint \<Rightarrow> codepoint" where
  "ascii_lower c = (if 65 \<le> c \<and> c \<le> 90 then c + 32 else c)"

definition str_lower :: "ustr \<Rightarrow> ustr" where
  "str_lower s = map ascii_lower s"

text \<open>The seven keywords: four two- or three-glyph phrases for "next page", "next
  chapter" and "next section", the word \<open>Next\<close>, \<open>>\<close> and the single angle quotation
  mark U+203A.\<close>

definition next_keywords :: "ustr list" where
  "next_keywords =
     [[19979, 19968, 39029], [19979, 19968, 31456], [19979, 19968, 33410],
      [19979, 19968, 38913], asc ''Next'', asc ''>'', [8250]]"

text \<open>
  \<open>re.compile("^keyword$", re.IGNORECASE).search(s)\<close>: without the multi-line flag
  \<open>^\<close> is the start of the string and \<open>$\<close> its end, or the place before a line feed
  that ends it.
\<close>

definition keyword_matches :: "ustr \<Rightarrow> ustr \<Rightarrow> bool" where
  "keyword_matches kw s \<longleftrightarrow>
     str_lower s = str_lower kw \<or> str_lower s = str_lower kw @ [10]"

definition anchor_with_text :: "ustr \<Rightarrow> node \<Rightarrow> bool" where
  "anchor_with_text kw k \<longleftrightarrow>
     has_tag (asc ''a'') k \<and>
     (case string_of k of None \<Rightarrow> False | Some s \<Rightarrow> keyword_matches kw s)"

definition anchor_with_class :: "ustr \<Rightarrow> node \<Rightarrow> bool" where
  "anchor_with_class c k \<longleftrightarrow> has_tag (asc ''a'') k \<and> c \<in> set (classes k)"

text \<open>
  Both loops of the resolver have the same shape: for each criterion, take the first
  anchor that meets it; return its \<open>href\<close> when it has a non-empty one, and go on to
  the next criterion otherwise.
\<close>

fun first_href :: "(node \<Rightarrow> bool) list \<Rightarrow> node \<Rightarrow> ustr option" where
  "first_href [] soup = None"
| "first_href (P # Ps) soup =
     (case soup_find P soup of
        None \<Rightarrow> first_href Ps soup
      | Some next_link \<Rightarrow>
          (case href next_link of
             None \<Rightarrow> first_href Ps soup
           | Some h \<Rightarrow> if h \<noteq> [] then Some h else first_href Ps soup))"

text \<open>
  In a pattern for \<open>str\<close>, \<open>\d\<close> matches every decimal digit of Unicode (category
  Nd), and \<open>int\<close> reads every such digit by its value.  These characters come in runs
  of ten, from the digit zero to the digit nine of a script; the table lists the zero of
  each of the 66 runs of Unicode 14.0, the character database of CPython 3.11.
\<close>

definition decimal_zeros :: "codepoint list" where
  "decimal_zeros =
     [48, 1632, 1776, 1984, 2406, 2534, 2662, 2790, 2918, 3046, 3174, 3302, 3430, 3558,
      3664, 3792, 3872, 4160, 4240, 6112, 6160, 6470, 6608, 6784, 6800, 6992, 7088, 7232,
      7248, 42528, 43216, 43264, 43472, 43504, 43600, 44016, 65296, 66720, 68912, 69734,
      69872, 69942, 70096, 70384, 70736, 70864, 71248, 71360, 71472, 71904, 72016, 72784,
      73040, 73120, 92768, 92864, 93008, 120782, 120792, 120802, 120812, 120822, 123200,
      123632, 125264, 130032]"

definition digit_value :: "codepoint \<Rightarrow> nat option" where
  "digit_value c =
     map_option (\<lambda>z. c - z) (List.find (\<lambda>z. z \<le> c \<and> c \<le> z + 9) decimal_zeros)"

definition is_decimal :: "codepoint \<Rightarrow> bool" where
  "is_decimal c \<longleftrightarrow> digit_value c \<noteq> None"

text \<open>
  \<open>re.search(r"(page|p)=(\d+)", current_url, re.IGNORECASE)\<close>: the leftmost place
  where \<open>page=\<close> or \<open>p=\<close> (in any case) is followed by a digit; group 1 is the word as
  the URL spells it and group 2 the longest run of digits.
\<close>

definition pattern_at :: "ustr \<Rightarrow> (ustr \<times> ustr) option" where
  "pattern_at s =
     (if str_lower (take 5 s) = asc ''page='' \<and> takeWhile is_decimal (drop 5 s) \<noteq> []
      then Some (take 4 s, takeWhile is_decimal (drop 5 s))
      else if str_lower (take 2 s) = asc ''p='' \<and> takeWhile is_decimal (drop 2 s) \<noteq> []
      then Some (take 1 s, takeWhile is_decimal (drop 2 s))
      else None)"

fun search_pattern :: "ustr \<Rightarrow> (ustr \<times> ustr) option" where
  "search_pattern [] = None"
| "search_pattern (x # xs) =
     (case pattern_at (x # xs) of Some g \<Rightarrow> Some g | None \<Rightarrow> search_pattern xs)"

text \<open>
  \<open>int(digits)\<close> for a run of decimal digits, and \<open>str(n)\<close> for a natural number.
  An interpreter that bounds the length of the text \<open>int\<close> converts (4300 digits
  unless configured otherwise) raises beyond that bound; such a run of digits is outside
  this model.
\<close>

definition int_of_digits :: "ustr \<Rightarrow> nat" where
  "int_of_digits ds =
     foldl (\<lambda>a d. 10 * a + (case digit_value d of None \<Rightarrow> 0 | Some v \<Rightarrow> v)) 0 ds"

function str_of_nat :: "nat \<Rightarrow> ustr" where
  "str_of_nat n = (if n < 10 then [48 + n] else str_of_nat (n div 10) @ [48 + n mod 10])"
  by pat_completeness auto
termination
  by (relation "measure id") auto

declare str_of_nat.simps [simp del]

text \<open>
  \<open>s.replace(old, new)\<close>: every occurrence of \<open>old\<close>, found from the left without
  overlap, is replaced.  The resolver never passes an empty \<open>old\<close>.
\<close>

function str_replace :: "ustr \<Rightarrow> ustr \<Rightarrow> ustr \<Rightarrow> ustr" where
  "str_replace old new [] = []"
| "str_replace old new (x # xs) =
     (if old \<noteq> [] \<and> starts_with old (x # xs)
      then new @ str_replace old new (drop (length old) (x # xs))
      else x # str_replace old new xs)"
  by pat_completeness auto
termination
  by (relation "measure (\<lambda>(old, new, s). length s)") auto

definition increment_page :: "ustr \<Rightarrow> ustr option" where
  "increment_page current_url =
     (if occurs_in (asc ''page'') (str_lower current_url) then
        (case search_pattern current_url of
           None \<Rightarrow> None
         | Some (word, digits) \<Rightarrow>
             Some (str_replace (word @ [61] @ digits)
                     (word @ [61] @ str_of_nat (int_of_digits digits + 1)) current_url))
      else None)"

definition extract_next_page :: "node \<Rightarrow> ustr \<Rightarrow> ustr option" where
  "extract_next_page soup current_url =
     (case first_href (map anchor_with_text next_keywords) soup of
        Some h \<Rightarrow> Some h
      | None \<Rightarrow>
          (case first_href (map anchor_with_class
                  [asc ''next'', asc ''next-page'', asc ''pagination-next'']) soup of
             Some h \<Rightarrow> Some h
           | None \<Rightarrow> increment_page current_url))"


section \<open>The downloader\<close>

text \<open>
  A value that \<open>process_page\<close> returns and the loop of \<open>download_novel\<close> hands back
  to it as the next URL: a string, \<open>None\<close>, \<open>True\<close> or \<open>False\<close>.
\<close>

datatype pyval = PStr ustr | PNone | PBool bool

fun truthy :: "pyval \<Rightarrow> bool" where
  "truthy (PStr s) = (s \<noteq> [])"
| "truthy PNone = False"
| "truthy (PBool b) = b"

text \<open>
  What the pause and \<open>session.get(url, timeout=10)\<close> do: the client returns a
  response (its status code and its body, here already parsed), it raises an exception
  (connection failure, timeout, invalid URL), or the user's interrupt arrives while the
  program waits; \<open>KeyboardInterrupt\<close> is not an \<open>Exception\<close>.  The HTTP client does
  not raise for a status code by itself.
\<close>

datatype outcome = Response nat node | Raises | KeyboardInterrupt

text \<open>
  The environment: the web, as a function from the URL to what fetching it does, and
  \<open>urllib.parse.urljoin\<close>.
\<close>

record env =
  fetch :: "ustr \<Rightarrow> outcome"
  urljoin :: "ustr \<Rightarrow> ustr \<Rightarrow> ustr"

text \<open>
  The HTTP client turns a URL that is not a string into text with \<open>str\<close>; \<open>True\<close>,
  \<open>False\<close> and \<open>None\<close> have no scheme, and the client raises before anything is sent.
\<close>

fun http_get :: "env \<Rightarrow> pyval \<Rightarrow> outcome" where
  "http_get e (PStr u) = fetch e u"
| "http_get e _ = Raises"

fun url_text :: "pyval \<Rightarrow> ustr" where
  "url_text (PStr u) = u"
| "url_text _ = []"

text \<open>The lines the program prints, by the statement that prints them.\<close>

datatype message =
    Starting ustr
  | OutputFileIs
  | ContentNotFound pyval
  | ProcessingFailed pyval
  | ChapterSaved ustr
  | DownloadDone nat
  | UserInterrupt
  | ErrorOccurred
  | Elapsed

text \<open>
  The four fields of \<open>NovelDownloader\<close>, and with them what the run leaves outside
  the object: the content of the output file, the console, and the URLs for which a
  fetch was started, in order.  Opening and writing the file are taken to succeed.
\<close>

record downloader =
  visited_urls :: "pyval set"
  current_chapter :: "ustr option"
  chapter_content :: "ustr list"
  chapter_count :: nat
  output_file :: ustr
  console :: "message list"
  requested :: "pyval list"

definition init :: "ustr \<Rightarrow> message list \<Rightarrow> downloader" where
  "init disk printed =
     \<lparr>visited_urls = {}, current_chapter = None, chapter_content = [], chapter_count = 0,
      output_file = disk, console = printed, requested = []\<rparr>"

text \<open>
  \<open>save_current_chapter\<close>: nothing happens when \<open>current_chapter\<close> is \<open>None\<close> or
  empty or when there are no fragments; otherwise the title, a line feed, the fragments
  without separator and a line feed are appended to the file.  No field of the object is
  assigned.
\<close>

definition chapter_block :: "ustr \<Rightarrow> ustr list \<Rightarrow> ustr" where
  "chapter_block title fragments = title @ [10] @ concat fragments @ [10]"

definition save_current_chapter :: "downloader \<Rightarrow> downloader" where
  "save_current_chapter st =
     (case current_chapter st of
        None \<Rightarrow> st
      | Some title \<Rightarrow>
          if title = [] \<or> chapter_content st = [] then st
          else st\<lparr>output_file := output_file st @ chapter_block title (chapter_content st),
                  console := console st @ [ChapterSaved title]\<rparr>)"

text \<open>
  The end of \<open>process_page\<close>: a next link that does not start with \<open>http://\<close> or
  \<open>https://\<close> is joined to the URL of the page.
\<close>

definition resolve :: "env \<Rightarrow> ustr \<Rightarrow> ustr option \<Rightarrow> pyval" where
  "resolve e url next_page =
     (case next_page of
        None \<Rightarrow> PNone
      | Some n \<Rightarrow>
          if n \<noteq> [] \<and> \<not> (starts_with (asc ''http://'') n \<or> starts_with (asc ''https://'') n)
          then PStr (urljoin e url n) else PStr n)"

text \<open>
  What a call of \<open>process_page\<close> ends with: a returned value, or the interrupt passing
  through it.
\<close>

datatype result = Returned pyval | Interrupted

definition new_chapter :: "ustr \<Rightarrow> downloader \<Rightarrow> downloader" where
  "new_chapter chapter_title st =
     (if Some chapter_title \<noteq> current_chapter st
      then (save_current_chapter st)
             \<lparr>current_chapter := Some chapter_title, chapter_content := [],
              chapter_count := chapter_count st + 1\<rparr>
      else st)"

definition append_content :: "ustr \<Rightarrow> downloader \<Rightarrow> downloader" where
  "append_content content st = st\<lparr>chapter_content := chapter_content st @ [content]\<rparr>"

text \<open>
  \<open>process_page\<close>.  The title and the content are taken first; the next link is
  looked for last, in the document as the content extractor left it.
\<close>

definition process_page :: "env \<Rightarrow> pyval \<Rightarrow> downloader \<Rightarrow> result \<times> downloader" where
  "process_page e url st =
     (if url \<in> visited_urls st then (Returned (PBool True), st)
      else
        let st1 = st\<lparr>visited_urls := insert url (visited_urls st),
                     requested := requested st @ [url]\<rparr>
        in case http_get e url of
             KeyboardInterrupt \<Rightarrow> (Interrupted, st1)
           | Raises \<Rightarrow>
               (Returned (PBool False), st1\<lparr>console := console st1 @ [ProcessingFailed url]\<rparr>)
           | Response status soup \<Rightarrow>
               (case extract_main_content soup of
                  None \<Rightarrow>
                    (Returned (PBool False),
                     st1\<lparr>console := console st1 @ [ContentNotFound url]\<rparr>)
                | Some content \<Rightarrow>
                    if content = [] then
                      (Returned (PBool False),
                       st1\<lparr>console := console st1 @ [ContentNotFound url]\<rparr>)
                    else
                      (Returned (resolve e (url_text url)
                                   (extract_next_page (soup_after_content soup)
                                      (url_text url))),
                       append_content content
                         (new_chapter (extract_chapter_title soup) st1))))"

text \<open>
  The loop \<open>while current_url: current_url = self.process_page(current_url, ...)\<close>.
  Nothing bounds the number of pages, so the loop is a partial function: \<open>None\<close> is a
  walk that never ends.
\<close>

partial_function (option) walk :: "env \<Rightarrow> pyval \<Rightarrow> downloader \<Rightarrow> (result \<times> downloader) option"
where
  "walk e current_url st =
     (if truthy current_url then
        (case process_page e current_url st of
           (Returned next_url, st') \<Rightarrow> walk e next_url st'
         | (Interrupted, st') \<Rightarrow> Some (Interrupted, st'))
      else Some (Returned current_url, st))"

text \<open>
  \<open>download_novel\<close>: the file is emptied, the loop runs, and after the loop the last
  chapter is saved and the summary printed.  An interrupt leaves through the loop and
  skips both.
\<close>

definition download_novel :: "env \<Rightarrow> ustr \<Rightarrow> downloader \<Rightarrow> (result \<times> downloader) option" where
  "download_novel e start_url st =
     (case walk e (PStr start_url) (st\<lparr>output_file := []\<rparr>) of
        None \<Rightarrow> None
      | Some (Interrupted, st') \<Rightarrow> Some (Interrupted, st')
      | Some (Returned v, st') \<Rightarrow>
          (let st'' = save_current_chapter st'
           in Some (Returned PNone,
                    st''\<lparr>console := console st'' @ [DownloadDone (chapter_count st'')]\<rparr>)))"

text \<open>
  \<open>main\<close>: the handler of \<open>KeyboardInterrupt\<close> prints one line and does nothing
  else; the \<open>finally\<close> clause prints the elapsed time.  No \<open>Exception\<close> leaves
  \<open>download_novel\<close> in this model, so the second handler and its line
  \<open>ErrorOccurred\<close> are never reached.  The result is the state the run leaves behind,
  of which the file and the console outlive the process.
\<close>

definition main :: "env \<Rightarrow> ustr \<Rightarrow> ustr \<Rightarrow> downloader option" where
  "main e url disk =
     (case download_novel e url (init disk [Starting url, OutputFileIs]) of
        None \<Rightarrow> None
      | Some (Interrupted, st) \<Rightarrow> Some (st\<lparr>console := console st @ [UserInterrupt, Elapsed]\<rparr>)
      | Some (Returned v, st) \<Rightarrow> Some (st\<lparr>console := console st @ [Elapsed]\<rparr>))"


section \<open>Chapter blocks as the specification states them\<close>

text \<open>
  The specification's reading of the output: consecutive pages with equal titles form
  one chapter, and every chapter is one block.  \<open>group_pages\<close> takes the pages of a
  walk as pairs of extracted title and extracted content, in fetch order.
  \<open>spec_blocks\<close> writes every chapter; \<open>written_blocks\<close> leaves out the chapters whose
  title is the empty string.
\<close>

fun join_chapter :: "ustr \<Rightarrow> ustr list \<Rightarrow> (ustr \<times> ustr list) list \<Rightarrow> (ustr \<times> ustr list) list" where
  "join_chapter t cs [] = [(t, cs)]"
| "join_chapter t cs ((t', cs') # gs) =
     (if t' = t then (t, cs @ cs') # gs else (t, cs) # (t', cs') # gs)"

fun group_pages :: "(ustr \<times> ustr) list \<Rightarrow> (ustr \<times> ustr list) list" where
  "group_pages [] = []"
| "group_pages ((t, c) # ps) = join_chapter t [c] (group_pages ps)"

definition blocks_of :: "(ustr \<times> ustr list) list \<Rightarrow> ustr" where
  "blocks_of gs = concat (map (\<lambda>(t, cs). chapter_block t cs) gs)"

definition spec_blocks :: "(ustr \<times> ustr) list \<Rightarrow> ustr" where
  "spec_blocks ps = blocks_of (group_pages ps)"

definition written_blocks :: "(ustr \<times> ustr) list \<Rightarrow> ustr" where
  "written_blocks ps = blocks_of (filter (\<lambda>(t, cs). t \<noteq> []) (group_pages ps))"

text \<open>
  What \<open>process_page\<close> takes from the page at a URL: title, content and the value it
  returns, when the fetch returns a response and the content is found and not empty.
  The title is read before the content extractor changes the document, the next link
  after.
\<close>

definition extracted :: "env \<Rightarrow> ustr \<Rightarrow> (ustr \<times> ustr \<times> pyval) option" where
  "extracted e u =
     (case fetch e u of
        Response status soup \<Rightarrow>
          (case extract_main_content soup of
             None \<Rightarrow> None
           | Some content \<Rightarrow>
               if content = [] then None
               else Some (extract_chapter_title soup, content,
                          resolve e u (extract_next_page (soup_after_content soup) u)))
      | _ \<Rightarrow> None)"

text \<open>
  \<open>halts e vs n\<close>: the value \<open>n\<close> that the last page returned ends the walk and no
  further page is taken in, when \<open>vs\<close> are the URLs visited so far.  It is no next link,
  or a URL already visited, or a URL whose fetch raises or whose page has no content.
  \<open>follows e vs us\<close> says that a walk from the first URL of \<open>us\<close> is led through
  exactly these URLs by the next links and halts after the last; \<open>pages\<close> are the pairs
  of title and content along it.
\<close>

fun halts :: "env \<Rightarrow> ustr list \<Rightarrow> pyval \<Rightarrow> bool" where
  "halts e vs (PStr w) =
     (w = [] \<or> w \<in> set vs \<or> (fetch e w \<noteq> KeyboardInterrupt \<and> extracted e w = None))"
| "halts e vs PNone = True"
| "halts e vs (PBool b) = (\<not> b)"

fun follows :: "env \<Rightarrow> ustr list \<Rightarrow> ustr list \<Rightarrow> bool" where
  "follows e vs [] = False"
| "follows e vs [u] =
     (u \<noteq> [] \<and> (case extracted e u of None \<Rightarrow> False | Some (t, c, n) \<Rightarrow> halts e (u # vs) n))"
| "follows e vs (u # v # us) =
     (u \<noteq> [] \<and> (case extracted e u of None \<Rightarrow> False | Some (t, c, n) \<Rightarrow> n = PStr v) \<and>
      follows e (u # vs) (v # us))"

definition pages :: "env \<Rightarrow> ustr list \<Rightarrow> (ustr \<times> ustr) list" where
  "pages e us =
     map (\<lambda>u. case extracted e u of None \<Rightarrow> ([], []) | Some (t, c, n) \<Rightarrow> (t, c)) us"

text \<open>
  What is still to be written when the walk stands before the remaining pages with an
  open chapter: \<open>flush\<close> is the text one call of the sink appends.
\<close>

definition flush :: "ustr option \<Rightarrow> ustr list \<Rightarrow> ustr" where
  "flush cur acc =
     (case cur of None \<Rightarrow> [] | Some t \<Rightarrow> if t = [] \<or> acc = [] then [] else chapter_block t acc)"

fun pending :: "ustr option \<Rightarrow> ustr list \<Rightarrow> (ustr \<times> ustr) list \<Rightarrow> ustr" where
  "pending cur acc [] = flush cur acc"
| "pending cur acc ((t, c) # ps) =
     (if Some t \<noteq> cur then flush cur acc @ pending (Some t) [c] ps
      else pending cur (acc @ [c]) ps)"

section \<open>Example documents\<close>

text \<open>A run of \<open>n\<close> letters \<open>x\<close>, an element without attributes, and a document.\<close>

definition filler :: "nat \<Rightarrow> ustr" where
  "filler n = replicate n 120"

definition el :: "string \<Rightarrow> node list \<Rightarrow> node" where
  "el name ks = Elem (asc name) None [] None ks"

definition doc :: "node list \<Rightarrow> node" where
  "doc ks = Elem (asc ''[document]'') None [] None ks"

definition content_div :: "node list \<Rightarrow> node" where
  "content_div ks = Elem (asc ''div'') (Some (asc ''content'')) [] None ks"

text \<open>Documents for the title and content extractors.\<close>

definition markup_h1_doc :: node where
  "markup_h1_doc =
     doc [el ''h1'' [Text (asc ''(1/3)'')], el ''title'' [Text (asc ''Chapter 1 - Site'')]]"

definition empty_h1_doc :: node where
  "empty_h1_doc = doc [el ''h1'' [], el ''title'' [Text (asc ''Chapter 1 - Site'')]]"

definition short_doc :: node where
  "short_doc = doc [content_div [Text (asc ''AAA''), el ''ins'' [Text (filler 101)]]]"

definition exact_doc :: node where
  "exact_doc = doc [content_div [Text (filler 100)]]"

definition ad_div :: "node list \<Rightarrow> node" where
  "ad_div ks = Elem (asc ''div'') None [asc ''ad''] None ks"

definition ad_doc :: node where
  "ad_doc = doc [content_div [ad_div [Text (asc ''AD'')], Text (filler 101)]]"

definition ins_doc :: node where
  "ins_doc = doc [content_div [el ''ins'' [Text (asc ''AD'')], Text (filler 101)]]"

text \<open>
  A page with a heading, a content element whose text is \<open>body\<close> once the inserted
  advertisement is removed, and an anchor of class \<open>next\<close>; and a web given by a table:
  fetching a URL outside the table raises.
\<close>

definition page :: "string \<Rightarrow> string \<Rightarrow> ustr option \<Rightarrow> node" where
  "page heading body next_href =
     doc [el ''h1'' [Text (asc heading)],
          content_div [Text (asc body), el ''ins'' [Text (filler 101)]],
          Elem (asc ''a'') None [asc ''next''] next_href []]"

definition url1 :: ustr where "url1 = asc ''http://n/1''"
definition url2 :: ustr where "url2 = asc ''http://n/2''"
definition url3 :: ustr where "url3 = asc ''http://n/3''"

definition web :: "(ustr \<times> outcome) list \<Rightarrow> env" where
  "web table =
     \<lparr>fetch = (\<lambda>u. case map_of table u of None \<Rightarrow> Raises | Some r \<Rightarrow> r),
      urljoin = (\<lambda>base rel. base @ rel)\<rparr>"

definition three_pages :: env where
  "three_pages =
     web [(url1, Response 200 (page ''Chapter 1'' ''AAA'' (Some url2))),
          (url2, Response 200 (page ''Chapter 1'' ''BBB'' (Some url3))),
          (url3, Response 200 (page ''Chapter 2'' ''CCC'' None))]"

definition untitled_first :: env where
  "untitled_first =
     web [(url1, Response 200 (page ''(1/2)'' ''AAA'' (Some url2))),
          (url2, Response 200 (page ''Chapter 2'' ''CCC'' None))]"

definition self_link :: env where
  "self_link = web [(url1, Response 200 (page ''Chapter 1'' ''AAA'' (Some url1)))]"

definition interrupted_second :: env where
  "interrupted_second =
     web [(url1, Response 200 (page ''Chapter 1'' ''AAA'' (Some url2))),
          (url2, KeyboardInterrupt)]"

definition not_found_page :: env where
  "not_found_page = web [(url1, Response 404 (page ''Not Found'' ''AAA'' None))]"

text \<open>
  A first page whose only next link stands inside an inserted advertisement of the
  content root.
\<close>

definition hidden_link :: env where
  "hidden_link =
     web [(url1, Response 200
             (doc [el ''h1'' [Text (asc ''Chapter 1'')],
                   content_div [Text (asc ''AAA''),
                     el ''ins'' [Text (filler 101),
                                 Elem (asc ''a'') None [] (Some url2) [Text (asc ''Next'')]]]])),
          (url2, Response 200 (page ''Chapter 2'' ''CCC'' None))]"


section \<open>Evaluation\<close>

lemma filler_length [simp]: "length (filler n) = n"
  by (simp add: filler_def)

lemma filler_nonempty [simp]: "0 < n \<Longrightarrow> filler n \<noteq> []"
  by (simp add: filler_def)

lemma filler_dropWhile [simp]: "dropWhile is_space (filler n) = filler n"
  by (cases n) (simp_all add: filler_def is_space_def)

lemma filler_rev [simp]: "rev (filler n) = filler n"
  by (simp add: filler_def)

lemma filler_append_nonempty [simp]: "0 < n \<Longrightarrow> filler n @ s \<noteq> []"
  by (simp add: filler_def)

lemma filler_self_append [simp]: "filler n = s @ filler n \<longleftrightarrow> s = []"
  by auto

lemmas string_eval = asc_def strip_def is_space_def is_dash_def is_unit_def is_digit09_def
  closer_def bracket_span_def skip_prefix_def skip_unit_def page_marker_def
  clean_chapter_title_def

lemmas soup_eval = el_def doc_def content_div_def soup_find_def has_tag_def get_text_def named_def

lemmas title_eval = extract_chapter_title_def title_from_document_def first_segment_def
  is_title_sep_def

lemma digit_value_ascii:
  "c < 1632 \<Longrightarrow> digit_value c = (if 48 \<le> c \<and> c \<le> 57 then Some (c - 48) else None)"
  by (simp add: digit_value_def decimal_zeros_def)

lemmas content_eval = extract_main_content_def selectors_def unwanted_def
  soup_after_content_def replace_first_def

lemmas next_eval = extract_next_page_def increment_page_def pattern_at_def str_lower_def
  ascii_lower_def anchor_with_text_def anchor_with_class_def next_keywords_def
  keyword_matches_def int_of_digits_def str_of_nat.simps is_decimal_def digit_value_ascii

lemmas walk_eval = main_def download_novel_def walk.simps process_page_def init_def
  save_current_chapter_def chapter_block_def resolve_def new_chapter_def append_content_def
  web_def page_def url1_def url2_def url3_def

lemmas page_eval = title_eval content_eval next_eval soup_eval string_eval

lemma extracted_page:
  "extracted (web table) u =
     (case map_of table u of
        Some (Response status soup) \<Rightarrow>
          (case extract_main_content soup of
             None \<Rightarrow> None
           | Some content \<Rightarrow>
               if content = [] then None
               else Some (extract_chapter_title soup, content,
                          resolve (web table) u (extract_next_page (soup_after_content soup) u)))
      | _ \<Rightarrow> None)"
  by (simp add: extracted_def web_def split: option.splits outcome.splits)

section \<open>The document after the content extractor\<close>

text \<open>
  The replacement finds an element exactly when the search does, and a document in which
  no root qualifies is left as it was.
\<close>

lemma find_append: "List.find P (xs @ ys) = (case List.find P xs of None \<Rightarrow> List.find P ys | Some x \<Rightarrow> Some x)"
  by (induction xs) auto

lemma replace_None:
  "(replace_in_node P f n = None \<longleftrightarrow> List.find P (descendants n) = None)"
  "(replace_in_list P f ks = None \<longleftrightarrow>
      List.find P (concat (map (\<lambda>k. k # descendants k) ks)) = None)"
  by (induction P f n and P f ks rule: replace_in_node_replace_in_list.induct)
     (auto simp: find_append split: option.splits)

lemma replace_first_unchanged: "soup_find P soup = None \<Longrightarrow> replace_first P f soup = soup"
  using replace_None(1) [of P f soup] by (simp add: soup_find_def replace_first_def)

lemma decompose_root_unchanged:
  "content_root sels soup = None \<Longrightarrow> decompose_root sels soup = soup"
  by (induction sels) (auto split: option.splits if_splits)

text \<open>
  A next link inside an element that the content extractor removes is gone when the
  resolver looks for it: the walk ends after the first page.
\<close>

lemma hidden_link_not_followed:
  "extracted hidden_link url1 = Some (asc ''Chapter 1'', asc ''AAA'', PNone) \<and>
   map_option output_file (main hidden_link url1 []) =
     Some (asc ''Chapter 1'' @ [10] @ asc ''AAA'' @ [10])"
proof
  show "extracted hidden_link url1 = Some (asc ''Chapter 1'', asc ''AAA'', PNone)"
    by (simp add: hidden_link_def extracted_page url1_def url2_def resolve_def page_eval)
  show "map_option output_file (main hidden_link url1 []) =
     Some (asc ''Chapter 1'' @ [10] @ asc ''AAA'' @ [10])"
    by (simp add: hidden_link_def walk_eval page_eval)
qed

text \<open>A digit of another script in the URL: the Arabic-Indic digit three, U+0663.\<close>

lemma arabic_indic_page_number:
  "digit_value 1635 = Some 3 \<and>
   extract_next_page (doc []) (asc ''http://x/read?page='' @ [1635]) =
     Some (asc ''http://x/read?page=4'')"
  by (simp add: next_eval soup_eval string_eval digit_value_def decimal_zeros_def)

section \<open>C1: chapters are grouped by title\<close>

text \<open>
  C1 at a walk whose first page has the heading \<open>(1/2)\<close>: the heading normalizes to
  the empty title, a chapter is opened and counted for it, and when the second page
  arrives with another title the sink is called and returns without writing, because it
  takes an empty title for no open chapter.  The summary counts two chapters; the file
  holds the second only, and the fragment \<open>AAA\<close> is lost.  The claim describes two
  blocks.
\<close>

theorem empty_title_chapter_lost:
  "map_option output_file (main untitled_first url1 []) =
     Some (asc ''Chapter 2'' @ [10] @ asc ''CCC'' @ [10]) \<and>
   map_option chapter_count (main untitled_first url1 []) = Some 2 \<and>
   map_option console (main untitled_first url1 []) =
     Some [Starting url1, OutputFileIs, ChapterSaved (asc ''Chapter 2''), DownloadDone 2,
           Elapsed] \<and>
   pages untitled_first [url1, url2] = [([], asc ''AAA''), (asc ''Chapter 2'', asc ''CCC'')] \<and>
   spec_blocks (pages untitled_first [url1, url2]) =
     [10] @ asc ''AAA'' @ [10] @ asc ''Chapter 2'' @ [10] @ asc ''CCC'' @ [10] \<and>
   map_option output_file (main untitled_first url1 []) \<noteq>
     Some (spec_blocks (pages untitled_first [url1, url2]))"
proof -
  have m: "map_option output_file (main untitled_first url1 []) =
     Some (asc ''Chapter 2'' @ [10] @ asc ''CCC'' @ [10])"
    by (simp add: untitled_first_def walk_eval page_eval)
  have n: "map_option chapter_count (main untitled_first url1 []) = Some 2"
    by (simp add: untitled_first_def walk_eval page_eval)
  have c: "map_option console (main untitled_first url1 []) =
     Some [Starting url1, OutputFileIs, ChapterSaved (asc ''Chapter 2''), DownloadDone 2,
           Elapsed]"
    by (simp add: untitled_first_def walk_eval page_eval)
  have p: "pages untitled_first [url1, url2] = [([], asc ''AAA''), (asc ''Chapter 2'', asc ''CCC'')]"
    by (simp add: pages_def untitled_first_def extracted_page page_def url1_def url2_def
          resolve_def page_eval)
  have s: "spec_blocks [([], asc ''AAA''), (asc ''Chapter 2'', asc ''CCC'')] =
     [10] @ asc ''AAA'' @ [10] @ asc ''Chapter 2'' @ [10] @ asc ''CCC'' @ [10]"
    by (simp add: spec_blocks_def blocks_of_def chapter_block_def asc_def)
  have d: "asc ''Chapter 2'' @ [10] @ asc ''CCC'' @ [10] \<noteq>
     [10] @ asc ''AAA'' @ [10] @ asc ''Chapter 2'' @ [10] @ asc ''CCC'' @ [10]"
    by (simp add: asc_def)
  show ?thesis
    unfolding m n c p s using d by simp
qed

section \<open>Chapter grouping along a walk\<close>

subsection \<open>The blocks that remain to be written\<close>

lemma join_chapter_twice: "join_chapter t acc (join_chapter t [c] gs) = join_chapter t (acc @ [c]) gs"
  by (cases gs) auto

lemma join_chapter_other:
  "t' \<noteq> t \<Longrightarrow> join_chapter t acc (join_chapter t' cs gs) = (t, acc) # join_chapter t' cs gs"
  by (cases gs) auto

lemma blocks_of_Cons:
  "blocks_of (filter (\<lambda>(t, cs). t \<noteq> []) ((t, acc) # gs)) =
     (if t = [] then [] else chapter_block t acc) @ blocks_of (filter (\<lambda>(t, cs). t \<noteq> []) gs)"
  by (simp add: blocks_of_def)

lemma pending_open:
  "acc \<noteq> [] \<Longrightarrow>
   pending (Some t) acc ps = blocks_of (filter (\<lambda>(t, cs). t \<noteq> []) (join_chapter t acc (group_pages ps)))"
proof (induction ps arbitrary: t acc)
  case Nil
  then show ?case by (simp add: flush_def blocks_of_def)
next
  case (Cons p ps)
  obtain t1 c1 where p: "p = (t1, c1)" by (cases p)
  show ?case
  proof (cases "t1 = t")
    case True
    have "pending (Some t) acc (p # ps) = pending (Some t) (acc @ [c1]) ps"
      by (simp add: p True)
    also have "\<dots> = blocks_of (filter (\<lambda>(t, cs). t \<noteq> []) (join_chapter t (acc @ [c1]) (group_pages ps)))"
      by (rule Cons.IH) simp
    finally show ?thesis by (simp add: p True join_chapter_twice)
  next
    case False
    have "pending (Some t) acc (p # ps) = flush (Some t) acc @ pending (Some t1) [c1] ps"
      using False by (simp add: p)
    also have "pending (Some t1) [c1] ps =
        blocks_of (filter (\<lambda>(t, cs). t \<noteq> []) (join_chapter t1 [c1] (group_pages ps)))"
      by (rule Cons.IH) simp
    finally show ?thesis
      using False Cons.prems
      by (simp add: p join_chapter_other blocks_of_Cons flush_def del: filter.simps)
  qed
qed

lemma pending_start: "pending None [] ps = written_blocks ps"
proof (cases ps)
  case Nil
  then show ?thesis by (simp add: flush_def written_blocks_def blocks_of_def)
next
  case (Cons p ps')
  obtain t c where p: "p = (t, c)" by (cases p)
  show ?thesis
    unfolding Cons p by (simp add: flush_def written_blocks_def pending_open)
qed

lemma join_chapter_titles: "fst ` set (join_chapter t cs gs) \<subseteq> insert t (fst ` set gs)"
  by (cases gs) (auto split: if_splits)

lemma group_pages_titles: "fst ` set (group_pages ps) \<subseteq> fst ` set ps"
proof (induction ps rule: group_pages.induct)
  case 1
  show ?case by simp
next
  case (2 t c ps)
  have "fst ` set (group_pages ((t, c) # ps)) \<subseteq> insert t (fst ` set (group_pages ps))"
    by (simp add: join_chapter_titles)
  also have "\<dots> \<subseteq> insert t (fst ` set ps)"
    using 2 by blast
  finally show ?case by simp
qed

lemma written_is_spec:
  assumes "\<forall>(t, c)\<in>set ps. t \<noteq> []"
  shows "written_blocks ps = spec_blocks ps"
proof -
  have "t \<noteq> []" if "(t, cs) \<in> set (group_pages ps)" for t cs
  proof -
    from that have "t \<in> fst ` set (group_pages ps)" by force
    then have "t \<in> fst ` set ps" using group_pages_titles by blast
    then obtain c where "(t, c) \<in> set ps" by auto
    with assms show ?thesis by blast
  qed
  then have "filter (\<lambda>(t, cs). t \<noteq> []) (group_pages ps) = group_pages ps"
    by (intro filter_True) auto
  then show ?thesis by (simp add: written_blocks_def spec_blocks_def)
qed

subsection \<open>One page, then the whole walk\<close>

lemma save_output:
  "output_file (save_current_chapter st) =
     output_file st @ flush (current_chapter st) (chapter_content st)"
  by (simp add: save_current_chapter_def flush_def split: option.splits)

lemma save_fields [simp]:
  "visited_urls (save_current_chapter st) = visited_urls st"
  "current_chapter (save_current_chapter st) = current_chapter st"
  "chapter_content (save_current_chapter st) = chapter_content st"
  "chapter_count (save_current_chapter st) = chapter_count st"
  "requested (save_current_chapter st) = requested st"
  by (simp_all add: save_current_chapter_def split: option.splits)

lemma process_page_extracted:
  assumes "PStr u \<notin> visited_urls st" and "extracted e u = Some (t, c, n)"
  shows "process_page e (PStr u) st =
           (Returned n,
            append_content c (new_chapter t
              (st\<lparr>visited_urls := insert (PStr u) (visited_urls st),
                  requested := requested st @ [PStr u]\<rparr>)))"
  using assms
  by (auto simp: process_page_def extracted_def Let_def split: outcome.splits option.splits if_splits)

lemma absorb_pending:
  "output_file (append_content c (new_chapter t st)) @
     pending (current_chapter (append_content c (new_chapter t st)))
             (chapter_content (append_content c (new_chapter t st))) ps =
   output_file st @ pending (current_chapter st) (chapter_content st) ((t, c) # ps)"
  by (simp add: append_content_def new_chapter_def save_output)

lemma absorb_visited:
  "visited_urls (append_content c (new_chapter t st)) = visited_urls st"
  by (simp add: append_content_def new_chapter_def)

lemma process_page_failed:
  assumes "PStr w \<notin> visited_urls st" and "fetch e w \<noteq> KeyboardInterrupt"
    and "extracted e w = None"
  shows "\<exists>st'. process_page e (PStr w) st = (Returned (PBool False), st') \<and>
           output_file st' = output_file st \<and> current_chapter st' = current_chapter st \<and>
           chapter_content st' = chapter_content st"
  using assms
  by (auto simp: process_page_def extracted_def Let_def split: outcome.splits option.splits if_splits)

lemma walk_halts:
  assumes "halts e vs n" and "PStr ` set vs \<subseteq> visited_urls st"
    and "PBool True \<notin> visited_urls st"
  shows "\<exists>r st'. walk e n st = Some (Returned r, st') \<and>
           output_file st' = output_file st \<and> current_chapter st' = current_chapter st \<and>
           chapter_content st' = chapter_content st"
proof (cases n)
  case PNone
  then show ?thesis by (subst walk.simps) simp
next
  case (PBool b)
  with assms show ?thesis by (subst walk.simps) simp
next
  case (PStr w)
  show ?thesis
  proof (cases "w = []")
    case True
    then show ?thesis unfolding PStr by (subst walk.simps) simp
  next
    case False
    show ?thesis
    proof (cases "PStr w \<in> visited_urls st")
      case True
      let ?st = "st\<lparr>visited_urls := insert (PBool True) (visited_urls st),
                     requested := requested st @ [PBool True],
                     console := console st @ [ProcessingFailed (PBool True)]\<rparr>"
      have 1: "walk e (PStr w) st = walk e (PBool True) st"
        using False True by (subst walk.simps) (simp add: process_page_def)
      have 2: "walk e (PBool True) st = walk e (PBool False) ?st"
        using assms(3) by (subst walk.simps) (simp add: process_page_def)
      have 3: "walk e (PBool False) ?st = Some (Returned (PBool False), ?st)"
        by (subst walk.simps) simp
      show ?thesis unfolding PStr 1 2 3 by simp
    next
      case unvisited: False
      then have "w \<notin> set vs" using assms(2) by auto
      with assms(1) False have f: "fetch e w \<noteq> KeyboardInterrupt" and x: "extracted e w = None"
        unfolding PStr by simp_all
      from process_page_failed [OF unvisited f x] obtain st' where
        p: "process_page e (PStr w) st = (Returned (PBool False), st')" and
        o: "output_file st' = output_file st" "current_chapter st' = current_chapter st"
           "chapter_content st' = chapter_content st"
        by blast
      have "walk e (PStr w) st = walk e (PBool False) st'"
        using False by (subst walk.simps) (simp add: p)
      also have "\<dots> = Some (Returned (PBool False), st')"
        by (subst walk.simps) simp
      finally show ?thesis unfolding PStr using o by simp
    qed
  qed
qed

lemma walk_follows:
  "follows e vs us \<Longrightarrow> distinct us \<Longrightarrow> \<forall>u\<in>set us. PStr u \<notin> visited_urls st \<Longrightarrow>
   PStr ` set vs \<subseteq> visited_urls st \<Longrightarrow> PBool True \<notin> visited_urls st \<Longrightarrow>
   \<exists>r st'. walk e (PStr (hd us)) st = Some (Returned r, st') \<and>
         output_file st' @ flush (current_chapter st') (chapter_content st') =
           output_file st @ pending (current_chapter st) (chapter_content st) (pages e us)"
proof (induction e vs us arbitrary: st rule: follows.induct)
  case (1 e vs)
  then show ?case by simp
next
  case (2 e vs u)
  then obtain t c n where x: "extracted e u = Some (t, c, n)" and u: "u \<noteq> []"
    and h: "halts e (u # vs) n"
    by (auto split: option.splits)
  from 2 have v: "PStr u \<notin> visited_urls st" by simp
  let ?base = "st\<lparr>visited_urls := insert (PStr u) (visited_urls st),
                  requested := requested st @ [PStr u]\<rparr>"
  let ?next = "append_content c (new_chapter t ?base)"
  have step: "walk e (PStr u) st = walk e n ?next"
    by (subst walk.simps) (simp add: u process_page_extracted [OF v x])
  have vis: "visited_urls ?next = insert (PStr u) (visited_urls st)"
    by (simp add: absorb_visited)
  have "PStr ` set (u # vs) \<subseteq> visited_urls ?next"
    using "2.prems"(4) unfolding vis by auto
  moreover have "PBool True \<notin> visited_urls ?next"
    using "2.prems"(5) unfolding vis by simp
  ultimately obtain r st' where
    w: "walk e n ?next = Some (Returned r, st')" and
    o: "output_file st' = output_file ?next" "current_chapter st' = current_chapter ?next"
       "chapter_content st' = chapter_content ?next"
    using walk_halts [OF h] by blast
  have "output_file ?next @ pending (current_chapter ?next) (chapter_content ?next) [] =
        output_file ?base @ pending (current_chapter ?base) (chapter_content ?base) [(t, c)]"
    by (rule absorb_pending)
  also have "\<dots> = output_file st @ pending (current_chapter st) (chapter_content st) [(t, c)]"
    by (simp del: pending.simps)
  finally have "output_file st' @ flush (current_chapter st') (chapter_content st') =
        output_file st @ pending (current_chapter st) (chapter_content st) [(t, c)]"
    unfolding o by (simp del: pending.simps(2))
  moreover have "pages e [u] = [(t, c)]"
    by (simp add: pages_def x)
  ultimately show ?case using step w by simp
next
  case (3 e vs u v us)
  then obtain t c where x: "extracted e u = Some (t, c, PStr v)" and u: "u \<noteq> []"
    and f: "follows e (u # vs) (v # us)"
    by (auto split: option.splits)
  from 3 have unvisited: "PStr u \<notin> visited_urls st" by simp
  let ?base = "st\<lparr>visited_urls := insert (PStr u) (visited_urls st),
                  requested := requested st @ [PStr u]\<rparr>"
  let ?next = "append_content c (new_chapter t ?base)"
  have step: "walk e (PStr u) st = walk e (PStr v) ?next"
    by (subst walk.simps) (simp add: u process_page_extracted [OF unvisited x])
  have vis: "visited_urls ?next = insert (PStr u) (visited_urls st)"
    by (simp add: absorb_visited)
  have d: "distinct (v # us)" using "3.prems"(2) by simp
  have nv: "\<forall>w\<in>set (v # us). PStr w \<notin> visited_urls ?next"
    using "3.prems"(2,3) unfolding vis by auto
  have sv: "PStr ` set (u # vs) \<subseteq> visited_urls ?next"
    using "3.prems"(4) unfolding vis by auto
  have nt: "PBool True \<notin> visited_urls ?next"
    using "3.prems"(5) unfolding vis by simp
  from "3.IH" [OF f d nv sv nt] obtain r st' where
    w: "walk e (PStr (hd (v # us))) ?next = Some (Returned r, st')" and
    o: "output_file st' @ flush (current_chapter st') (chapter_content st') =
          output_file ?next @ pending (current_chapter ?next) (chapter_content ?next)
            (pages e (v # us))"
    by blast
  have "output_file ?next @ pending (current_chapter ?next) (chapter_content ?next)
            (pages e (v # us)) =
        output_file ?base @ pending (current_chapter ?base) (chapter_content ?base)
          ((t, c) # pages e (v # us))"
    by (rule absorb_pending)
  also have "\<dots> = output_file st @ pending (current_chapter st) (chapter_content st)
          ((t, c) # pages e (v # us))"
    by (simp del: pending.simps)
  finally have "output_file ?next @ pending (current_chapter ?next) (chapter_content ?next)
            (pages e (v # us)) =
        output_file st @ pending (current_chapter st) (chapter_content st)
          ((t, c) # pages e (v # us))" .
  moreover have "pages e (u # v # us) = (t, c) # pages e (v # us)"
    by (simp add: pages_def x)
  ultimately show ?case using step w o by simp
qed

lemma three_pages_extracted:
  "extracted three_pages url1 = Some (asc ''Chapter 1'', asc ''AAA'', PStr url2) \<and>
   extracted three_pages url2 = Some (asc ''Chapter 1'', asc ''BBB'', PStr url3) \<and>
   extracted three_pages url3 = Some (asc ''Chapter 2'', asc ''CCC'', PNone)"
  by (simp add: three_pages_def extracted_page page_def url1_def url2_def url3_def resolve_def page_eval)

text \<open>
  Apart from the chapter with the empty title, the grouping is as the specification
  states it.  For every walk
  that the next links lead through pages with distinct URLs, each fetched and with
  content found, and that halts after the last of them (no next link, a link to a
  visited page, a fetch that raises or a page without content), the output file holds
  at the end, in fetch order, one block for every run of consecutive pages with equal
  extracted title, except the runs whose title is empty; when no extracted title is
  empty these are the blocks of the specification: the run's title, a line feed, the
  contents of its pages concatenated without separator and a line feed.
\<close>

theorem chapters_grouped_by_title:
  assumes "follows e [] us" and "distinct us"
  shows "map_option output_file (main e (hd us) disk) = Some (written_blocks (pages e us)) \<and>
         ((\<forall>(t, c)\<in>set (pages e us). t \<noteq> []) \<longrightarrow>
            map_option output_file (main e (hd us) disk) = Some (spec_blocks (pages e us)))"
proof -
  let ?st = "(init disk [Starting (hd us), OutputFileIs])\<lparr>output_file := []\<rparr>"
  have 1: "\<forall>u\<in>set us. PStr u \<notin> visited_urls ?st" by (simp add: init_def)
  have 2: "PStr ` set [] \<subseteq> visited_urls ?st" by simp
  have 3: "PBool True \<notin> visited_urls ?st" by (simp add: init_def)
  from walk_follows [OF assms 1 2 3] obtain r st' where
    w: "walk e (PStr (hd us)) ?st = Some (Returned r, st')" and
    o: "output_file st' @ flush (current_chapter st') (chapter_content st') =
          output_file ?st @ pending (current_chapter ?st) (chapter_content ?st) (pages e us)"
    by blast
  have "output_file (save_current_chapter st') = written_blocks (pages e us)"
    using o by (simp add: save_output init_def pending_start)
  then have m: "map_option output_file (main e (hd us) disk) = Some (written_blocks (pages e us))"
    by (simp add: main_def download_novel_def w Let_def)
  show ?thesis
    using m written_is_spec by metis
qed

text \<open>
  The walk of the specification's example: two pages titled \<open>Chapter 1\<close> with contents \<open>AAA\<close> and
  \<open>BBB\<close>, then a page titled \<open>Chapter 2\<close> with content \<open>CCC\<close> and no next link.
\<close>

theorem three_page_walk:
  "map_option output_file (main three_pages url1 []) =
     Some (asc ''Chapter 1'' @ [10] @ asc ''AAABBB'' @ [10] @
           asc ''Chapter 2'' @ [10] @ asc ''CCC'' @ [10])"
proof -
  have f: "follows three_pages [] [url1, url2, url3]"
    using three_pages_extracted by (simp add: url1_def url2_def url3_def asc_def)
  have d: "distinct [url1, url2, url3]"
    by (simp add: url1_def url2_def url3_def asc_def)
  have p: "pages three_pages [url1, url2, url3] =
      [(asc ''Chapter 1'', asc ''AAA''), (asc ''Chapter 1'', asc ''BBB''),
       (asc ''Chapter 2'', asc ''CCC'')]"
    using three_pages_extracted by (simp add: pages_def)
  have w: "written_blocks [(asc ''Chapter 1'', asc ''AAA''), (asc ''Chapter 1'', asc ''BBB''),
       (asc ''Chapter 2'', asc ''CCC'')] =
     asc ''Chapter 1'' @ [10] @ asc ''AAABBB'' @ [10] @ asc ''Chapter 2'' @ [10] @ asc ''CCC'' @ [10]"
    by (simp add: written_blocks_def blocks_of_def chapter_block_def asc_def)
  from chapters_grouped_by_title [OF f d, of "[]"]
  have "map_option output_file (main three_pages (hd [url1, url2, url3]) []) =
          Some (written_blocks (pages three_pages [url1, url2, url3]))"
    by (rule conjunct1)
  then show ?thesis unfolding p w by simp
qed

section \<open>C2: a next link back to a visited page\<close>

text \<open>
  C2 at a page whose next link is its own URL.  The visited check returns \<open>True\<close>,
  which the loop takes for the next URL: one more iteration runs, \<open>True\<close> enters the
  visited set and goes to the HTTP client, and the failure of that request is printed
  before the walk ends.
\<close>

theorem revisit_fetches_True:
  "map_option console (main self_link url1 []) =
     Some [Starting url1, OutputFileIs, ProcessingFailed (PBool True),
           ChapterSaved (asc ''Chapter 1''), DownloadDone 1, Elapsed] \<and>
   map_option requested (main self_link url1 []) = Some [PStr url1, PBool True] \<and>
   map_option visited_urls (main self_link url1 []) = Some {PBool True, PStr url1}"
  by (simp add: self_link_def walk_eval page_eval)

section \<open>C3: an interrupt during the second fetch\<close>

text \<open>
  C3 at a walk interrupted while it fetches the second page: the first page's fragment
  \<open>AAA\<close> is in the open chapter, the handler prints its line, and the file stays
  empty.
\<close>

theorem interrupt_loses_open_chapter:
  "map_option output_file (main interrupted_second url1 (asc ''old'')) = Some [] \<and>
   map_option chapter_content (main interrupted_second url1 (asc ''old'')) = Some [asc ''AAA''] \<and>
   map_option current_chapter (main interrupted_second url1 (asc ''old'')) =
     Some (Some (asc ''Chapter 1'')) \<and>
   map_option console (main interrupted_second url1 (asc ''old'')) =
     Some [Starting url1, OutputFileIs, UserInterrupt, Elapsed]"
  by (simp add: interrupted_second_def walk_eval page_eval)

section \<open>C4: the threshold of the content extractor\<close>

lemma content_root_None:
  "content_root sels soup = None \<longleftrightarrow>
     (\<forall>sel\<in>set sels. \<forall>k. soup_find (matches sel) soup = Some k \<longrightarrow> length (get_text [] k) \<le> 100)"
  by (induction sels) (auto split: option.splits)

lemma content_root_Some:
  "content_root sels soup = Some k \<Longrightarrow>
     \<exists>sel\<in>set sels. soup_find (matches sel) soup = Some k \<and> 100 < length (get_text [] k)"
  by (induction sels) (auto split: option.splits if_splits)

text \<open>
  C4, as stated, fails twice.  The threshold is tested before the unwanted elements are
  removed: a root with three characters of its own and 101 in an inserted advertisement
  qualifies, and the result is three characters long.  And the test is strict: a root
  with exactly 100 characters does not qualify, and the result is \<open>None\<close>.
\<close>

theorem extract_main_content_below_threshold:
  "extract_main_content short_doc = Some (asc ''AAA'') \<and>
   length (asc ''AAA'') < 100 \<and>
   content_root selectors short_doc =
     Some (content_div [Text (asc ''AAA''), el ''ins'' [Text (filler 101)]]) \<and>
   length (get_text [] (content_div [Text (asc ''AAA''), el ''ins'' [Text (filler 101)]])) = 104 \<and>
   extract_main_content exact_doc = None \<and>
   soup_find (matches (ById (asc ''div'') (asc ''content''))) exact_doc =
     Some (content_div [Text (filler 100)]) \<and>
   length (get_text [] (content_div [Text (filler 100)])) = 100"
  by (simp add: short_doc_def exact_doc_def content_eval soup_eval string_eval)

text \<open>
  C4, amended: the extractor returns \<open>None\<close> exactly when no selector's first match
  has stripped text longer than 100 characters; and a result is the text, joined with
  line feeds, of a selector's first match whose stripped text is longer than 100
  characters, after the unwanted elements are removed from it.  The threshold bounds
  the text before the removal, not the result.
\<close>

theorem extract_main_content_threshold:
  "(extract_main_content soup = None \<longleftrightarrow>
      (\<forall>sel\<in>set selectors. \<forall>k. soup_find (matches sel) soup = Some k \<longrightarrow>
          length (get_text [] k) \<le> 100)) \<and>
   (\<forall>r. extract_main_content soup = Some r \<longrightarrow>
      (\<exists>sel\<in>set selectors. \<exists>k. soup_find (matches sel) soup = Some k \<and>
          100 < length (get_text [] k) \<and> r = get_text [10] (decompose_all unwanted k)))"
proof -
  have 1: "extract_main_content soup = None \<longleftrightarrow> content_root selectors soup = None"
    by (simp add: extract_main_content_def split: option.splits)
  have 2: "\<exists>k. content_root selectors soup = Some k \<and> r = get_text [10] (decompose_all unwanted k)"
    if "extract_main_content soup = Some r" for r
    using that by (simp add: extract_main_content_def split: option.splits)
  show ?thesis
    unfolding 1 content_root_None using 2 content_root_Some by blast
qed

text \<open>The amended C4 at the document with the inserted advertisement.\<close>

theorem extract_main_content_threshold_witness:
  "\<exists>sel\<in>set selectors. \<exists>k. soup_find (matches sel) short_doc = Some k \<and>
      100 < length (get_text [] k) \<and> asc ''AAA'' = get_text [10] (decompose_all unwanted k)"
proof -
  have "extract_main_content short_doc = Some (asc ''AAA'')"
    by (simp add: short_doc_def content_eval soup_eval string_eval)
  with extract_main_content_threshold [of short_doc] show ?thesis by blast
qed

section \<open>C5: normalizing twice\<close>

lemma closes_rest:
  "closes c' ys = Some r \<Longrightarrow> c' \<noteq> 10 \<Longrightarrow> closes c ys = None \<Longrightarrow> closes c r = None"
  by (induction ys) (auto split: if_splits)

lemma closer_not_newline: "closer x = Some c \<Longrightarrow> c \<noteq> 10 \<and> x \<noteq> 10"
  by (auto simp: closer_def split: if_splits)

lemma closes_sub_brackets: "closes c xs = None \<Longrightarrow> closes c (sub_brackets xs) = None"
proof (induction xs rule: sub_brackets.induct)
  case 1
  show ?case by simp
next
  case (2 x xs)
  show ?case
  proof (cases "bracket_span (x # xs)")
    case None
    with 2 show ?thesis by (auto split: if_splits)
  next
    case (Some r)
    then obtain c' where c': "closer x = Some c'" and r: "closes c' xs = Some r"
      by (auto simp: bracket_span_def split: option.splits)
    from closer_not_newline [OF c'] have n: "c' \<noteq> 10" "x \<noteq> 10" by simp_all
    from "2.prems" n have "closes c xs = None" by (auto split: if_splits)
    from closes_rest [OF r n(1) this] have "closes c r = None" .
    with 2 Some show ?thesis by simp
  qed
qed

lemma sub_brackets_idem: "sub_brackets (sub_brackets s) = sub_brackets s"
proof (induction s rule: sub_brackets.induct)
  case 1
  show ?case by simp
next
  case (2 x xs)
  show ?case
  proof (cases "bracket_span (x # xs)")
    case None
    then have "bracket_span (x # sub_brackets xs) = None"
      by (auto simp: bracket_span_def closes_sub_brackets split: option.splits)
    with 2 None show ?thesis by simp
  next
    case (Some r)
    with 2 show ?thesis by simp
  qed
qed

lemma sub_brackets_length: "length (sub_brackets s) \<le> length s"
proof (induction s rule: sub_brackets.induct)
  case 1
  show ?case by simp
next
  case (2 x xs)
  show ?case
  proof (cases "bracket_span (x # xs)")
    case None
    with 2 show ?thesis by simp
  next
    case (Some r)
    with 2 bracket_span_length [OF Some] show ?thesis by simp
  qed
qed

lemma sub_page_markers_length: "length (sub_page_markers s) \<le> length s"
proof (induction s rule: sub_page_markers.induct)
  case 1
  show ?case by simp
next
  case (2 x xs)
  show ?case
  proof (cases "page_marker (x # xs)")
    case None
    with 2 show ?thesis by simp
  next
    case (Some r)
    with 2 page_marker_length [OF Some] show ?thesis by simp
  qed
qed

lemma strip_length: "length (strip s) \<le> length s"
proof -
  have "length (strip s) = length (dropWhile is_space (rev (dropWhile is_space s)))"
    by (simp add: strip_def)
  also have "\<dots> \<le> length (rev (dropWhile is_space s))" by (rule dropWhile_length_le)
  also have "\<dots> \<le> length s" by (simp add: dropWhile_length_le)
  finally show ?thesis .
qed

lemma sub_brackets_fixed: "sub_brackets t = t \<longleftrightarrow> \<not> has_bracket_span t"
proof (induction t)
  case Nil
  show ?case by simp
next
  case (Cons x xs)
  show ?case
  proof (cases "bracket_span (x # xs)")
    case None
    with Cons show ?thesis by simp
  next
    case (Some r)
    have "length (sub_brackets (x # xs)) < length (x # xs)"
      using sub_brackets_length [of r] bracket_span_length [OF Some] by (simp add: Some)
    then have "sub_brackets (x # xs) \<noteq> x # xs" by auto
    with Some show ?thesis by simp
  qed
qed

lemma sub_page_markers_fixed: "sub_page_markers t = t \<longleftrightarrow> \<not> has_page_marker t"
proof (induction t)
  case Nil
  show ?case by simp
next
  case (Cons x xs)
  show ?case
  proof (cases "page_marker (x # xs)")
    case None
    with Cons show ?thesis by simp
  next
    case (Some r)
    have "length (sub_page_markers (x # xs)) < length (x # xs)"
      using sub_page_markers_length [of r] page_marker_length [OF Some] by (simp add: Some)
    then have "sub_page_markers (x # xs) \<noteq> x # xs" by auto
    with Some show ?thesis by simp
  qed
qed

lemma same_length_sub_brackets: "length (sub_brackets t) = length t \<Longrightarrow> sub_brackets t = t"
proof (induction t rule: sub_brackets.induct)
  case 1
  show ?case by simp
next
  case (2 x xs)
  show ?case
  proof (cases "bracket_span (x # xs)")
    case None
    with 2 show ?thesis by simp
  next
    case (Some r)
    have "length (sub_brackets (x # xs)) < length (x # xs)"
      using sub_brackets_length [of r] bracket_span_length [OF Some] by (simp add: Some)
    with "2.prems" show ?thesis by simp
  qed
qed

lemma same_length_sub_page_markers:
  "length (sub_page_markers t) = length t \<Longrightarrow> sub_page_markers t = t"
proof (induction t rule: sub_page_markers.induct)
  case 1
  show ?case by simp
next
  case (2 x xs)
  show ?case
  proof (cases "page_marker (x # xs)")
    case None
    with 2 show ?thesis by simp
  next
    case (Some r)
    have "length (sub_page_markers (x # xs)) < length (x # xs)"
      using sub_page_markers_length [of r] page_marker_length [OF Some] by (simp add: Some)
    with "2.prems" show ?thesis by simp
  qed
qed

lemma strip_prefix: "\<exists>w. dropWhile P u = rev (dropWhile P (rev (dropWhile P u))) @ w"
  by (metis rev_append rev_rev_ident takeWhile_dropWhile_id)

lemma strip_strip: "strip (strip s) = strip s"
proof -
  define u where "u = dropWhile is_space s"
  define v where "v = rev (dropWhile is_space (rev u))"
  have hd_u: "u = [] \<or> \<not> is_space (hd u)"
    unfolding u_def using hd_dropWhile [of is_space s] by blast
  obtain w where w: "u = v @ w"
    using strip_prefix [of is_space s] unfolding u_def v_def by blast
  have "v = [] \<or> \<not> is_space (hd v)"
    using hd_u w by (cases v) auto
  then have l: "dropWhile is_space v = v"
    by (simp add: dropWhile_eq_self_iff)
  have r: "rev (dropWhile is_space (rev v)) = v"
    unfolding v_def by simp
  show ?thesis
    unfolding strip_def u_def [symmetric] v_def [symmetric] l r ..
qed

lemma clean_fixed:
  assumes "strip t = t"
  shows "clean_chapter_title t = t \<longleftrightarrow> \<not> has_bracket_span t \<and> \<not> has_page_marker t"
proof
  assume "\<not> has_bracket_span t \<and> \<not> has_page_marker t"
  then have "sub_brackets t = t" "sub_page_markers t = t"
    by (simp_all add: sub_brackets_fixed sub_page_markers_fixed)
  with assms show "clean_chapter_title t = t"
    by (simp add: clean_chapter_title_def)
next
  assume c: "clean_chapter_title t = t"
  have "length t = length (strip (sub_page_markers (sub_brackets t)))"
    using c by (simp add: clean_chapter_title_def)
  also have "\<dots> \<le> length (sub_page_markers (sub_brackets t))" by (rule strip_length)
  finally have 1: "length t \<le> length (sub_page_markers (sub_brackets t))" .
  have 2: "length (sub_page_markers (sub_brackets t)) \<le> length (sub_brackets t)"
    by (rule sub_page_markers_length)
  have 3: "length (sub_brackets t) \<le> length t" by (rule sub_brackets_length)
  from 1 2 3 have "length (sub_brackets t) = length t" by simp
  then have b: "sub_brackets t = t" by (rule same_length_sub_brackets)
  from 1 2 3 have "length (sub_page_markers t) = length t" unfolding b by simp
  then have p: "sub_page_markers t = t" by (rule same_length_sub_page_markers)
  from b p show "\<not> has_bracket_span t \<and> \<not> has_page_marker t"
    by (simp add: sub_brackets_fixed sub_page_markers_fixed)
qed

text \<open>
  C5, as stated, fails: the page-marker pass deletes \<open>-1\<close> from \<open>--1 2\<close> and
  leaves \<open>- 2\<close>, which is itself a page marker; a second normalization deletes it.
\<close>

theorem clean_chapter_title_not_idempotent:
  "clean_chapter_title (clean_chapter_title (asc ''--1 2'')) \<noteq> clean_chapter_title (asc ''--1 2'')"
  by (simp add: string_eval)

text \<open>
  C5, amended: the removal of bracket spans and the trimming are each idempotent, and
  normalizing a normalized title returns it unchanged exactly when the normalized title
  contains neither a bracket span nor a page marker.  A title that keeps a dash or a
  bracket which starts no match, such as \<open>Re-Zero\<close>, is unchanged by a second
  normalization.
\<close>

theorem clean_chapter_title_idempotent_iff:
  "sub_brackets (sub_brackets s) = sub_brackets s \<and>
   strip (strip s) = strip s \<and>
   (clean_chapter_title (clean_chapter_title s) = clean_chapter_title s \<longleftrightarrow>
      \<not> has_bracket_span (clean_chapter_title s) \<and>
      \<not> has_page_marker (clean_chapter_title s))"
proof (intro conjI)
  show "sub_brackets (sub_brackets s) = sub_brackets s" by (rule sub_brackets_idem)
  show "strip (strip s) = strip s" by (rule strip_strip)
  show "clean_chapter_title (clean_chapter_title s) = clean_chapter_title s \<longleftrightarrow>
      \<not> has_bracket_span (clean_chapter_title s) \<and>
      \<not> has_page_marker (clean_chapter_title s)"
    by (rule clean_fixed) (simp add: clean_chapter_title_def strip_strip)
qed

text \<open>
  The amended C5 at two titles: one with a page count in brackets and a page marker,
  whose normalized form is \<open>Chapter 1\<close>, and one that keeps its hyphen.
\<close>

theorem clean_chapter_title_idempotent_witness:
  "clean_chapter_title (asc ''Chapter 1 (2/3) - 2'') = asc ''Chapter 1'' \<and>
   clean_chapter_title (clean_chapter_title (asc ''Chapter 1 (2/3) - 2'')) =
     clean_chapter_title (asc ''Chapter 1 (2/3) - 2'') \<and>
   clean_chapter_title (asc ''Re-Zero'') = asc ''Re-Zero'' \<and>
   clean_chapter_title (clean_chapter_title (asc ''Re-Zero'')) =
     clean_chapter_title (asc ''Re-Zero'')"
proof -
  have e: "clean_chapter_title (asc ''Chapter 1 (2/3) - 2'') = asc ''Chapter 1''"
    by (simp add: string_eval)
  have h: "\<not> has_bracket_span (clean_chapter_title (asc ''Chapter 1 (2/3) - 2'')) \<and>
           \<not> has_page_marker (clean_chapter_title (asc ''Chapter 1 (2/3) - 2''))"
    unfolding e by (simp add: string_eval)
  have e': "clean_chapter_title (asc ''Re-Zero'') = asc ''Re-Zero''"
    by (simp add: string_eval)
  have h': "\<not> has_bracket_span (clean_chapter_title (asc ''Re-Zero'')) \<and>
            \<not> has_page_marker (clean_chapter_title (asc ''Re-Zero''))"
    unfolding e' by (simp add: string_eval)
  from clean_chapter_title_idempotent_iff [of "asc ''Chapter 1 (2/3) - 2''"] h
  have i: "clean_chapter_title (clean_chapter_title (asc ''Chapter 1 (2/3) - 2'')) =
     clean_chapter_title (asc ''Chapter 1 (2/3) - 2'')"
    by blast
  from clean_chapter_title_idempotent_iff [of "asc ''Re-Zero''"] h'
  have i': "clean_chapter_title (clean_chapter_title (asc ''Re-Zero'')) =
     clean_chapter_title (asc ''Re-Zero'')"
    by blast
  from e i e' i' show ?thesis by (intro conjI)
qed

section \<open>C6: calling the sink twice\<close>




section \<open>C7: an empty title\<close>

text \<open>
  C7 at a document whose heading is \<open>(1/3)\<close>: the heading is not empty, so the first
  branch is taken, and its normalized text is empty.  The extractor returns the empty
  string and does not go on to the document title, which gives \<open>Chapter 1\<close>.  With an
  empty heading in its place the extractor does go on: emptiness is tested, but before
  the normalization instead of after it.
\<close>

theorem extract_chapter_title_returns_empty:
  "extract_chapter_title markup_h1_doc = [] \<and>
   title_from_document markup_h1_doc = asc ''Chapter 1'' \<and>
   extract_chapter_title empty_h1_doc = asc ''Chapter 1''"
  by (simp add: markup_h1_doc_def empty_h1_doc_def title_eval soup_eval string_eval)

section \<open>C8: the page number in the URL\<close>

text \<open>
  C8 at a URL in which the matched text \<open>page=1\<close> occurs a second time, inside
  \<open>lastpage=12\<close>: \<open>str.replace\<close> rewrites both occurrences, and the rest of the
  URL does not stay as it was.  The URL of the claim's example, where the matched text
  occurs once, becomes the URL of page 4.
\<close>

theorem increment_page_rewrites_other_occurrence:
  "extract_next_page (doc []) (asc ''http://x/read?page=1&lastpage=12'') =
     Some (asc ''http://x/read?page=2&lastpage=22'') \<and>
   extract_next_page (doc []) (asc ''http://x/read?page=3'') =
     Some (asc ''http://x/read?page=4'')"
  by (simp add: next_eval soup_eval string_eval)

section \<open>C9: a fetch that fails\<close>

text \<open>
  C9, as stated, fails for a response with an error status: the client returns it
  without raising, the program never reads the status, and the body of the 404 page
  becomes a chapter of the output file.
\<close>

theorem error_status_page_used:
  "map_option output_file (main not_found_page url1 []) =
     Some (asc ''Not Found'' @ [10] @ asc ''AAA'' @ [10]) \<and>
   map_option console (main not_found_page url1 []) =
     Some [Starting url1, OutputFileIs, ChapterSaved (asc ''Not Found''), DownloadDone 1, Elapsed]"
  by (simp add: not_found_page_def walk_eval page_eval)

text \<open>
  C9, amended: when fetching a page raises an exception (a network failure or a
  timeout), the walk ends with that one request: the URL is marked visited, the failure
  is printed with the URL, and the open chapter, the chapter count and the output file
  are as they were.  A response does not raise whatever its status: two responses with
  the same body and different status codes are processed alike.
\<close>

theorem fetch_exception_ends_walk:
  "(url \<noteq> [] \<and> PStr url \<notin> visited_urls st \<and> fetch e url = Raises \<longrightarrow>
      walk e (PStr url) st =
        Some (Returned (PBool False),
              st\<lparr>visited_urls := insert (PStr url) (visited_urls st),
                  requested := requested st @ [PStr url],
                  console := console st @ [ProcessingFailed (PStr url)]\<rparr>)) \<and>
   (fetch e url = Response status soup \<and> fetch e' url = Response status' soup \<and>
    urljoin e = urljoin e' \<longrightarrow>
      process_page e (PStr url) st = process_page e' (PStr url) st)"
proof (intro conjI impI)
  assume a: "url \<noteq> [] \<and> PStr url \<notin> visited_urls st \<and> fetch e url = Raises"
  let ?st = "st\<lparr>visited_urls := insert (PStr url) (visited_urls st),
                  requested := requested st @ [PStr url],
                  console := console st @ [ProcessingFailed (PStr url)]\<rparr>"
  have p: "process_page e (PStr url) st = (Returned (PBool False), ?st)"
    using a by (simp add: process_page_def)
  have "walk e (PStr url) st = walk e (PBool False) ?st"
    using a by (subst walk.simps) (simp add: p)
  also have "\<dots> = Some (Returned (PBool False), ?st)"
    by (subst walk.simps) simp
  finally show "walk e (PStr url) st = Some (Returned (PBool False), ?st)" .
next
  assume a: "fetch e url = Response status soup \<and> fetch e' url = Response status' soup \<and>
    urljoin e = urljoin e'"
  then have r: "resolve e u n = resolve e' u n" for u n
    by (cases n) (simp_all add: resolve_def)
  from a show "process_page e (PStr url) st = process_page e' (PStr url) st"
    by (simp add: process_page_def r Let_def split: option.splits)
qed

text \<open>The amended C9 at a web in which every fetch raises.\<close>

theorem fetch_exception_ends_walk_witness:
  "walk (web []) (PStr url1) (init [] []) =
     Some (Returned (PBool False),
           (init [] [])\<lparr>visited_urls := insert (PStr url1) (visited_urls (init [] [])),
                        requested := requested (init [] []) @ [PStr url1],
                        console := console (init [] []) @ [ProcessingFailed (PStr url1)]\<rparr>)"
proof -
  have "url1 \<noteq> [] \<and> PStr url1 \<notin> visited_urls (init [] []) \<and> fetch (web []) url1 = Raises"
    by (simp add: url1_def asc_def init_def web_def)
  with fetch_exception_ends_walk [of url1 "init [] []" "web []"] show ?thesis by blast
qed

section \<open>C10: what is removed from the content root\<close>

text \<open>
  C10 at a content root that holds a \<open>div\<close> element of class \<open>ad\<close>: the list
  given to \<open>find_all\<close> names tags, no tag is named \<open>div.ad\<close>, and the text of the
  advertisement stays in the result.  The same text inside an \<open>ins\<close> element is
  removed.
\<close>

theorem ad_div_not_removed:
  "extract_main_content ad_doc = Some (asc ''AD'' @ [10] @ filler 101) \<and>
   extract_main_content ins_doc = Some (filler 101)"
  by (simp add: ad_doc_def ins_doc_def ad_div_def content_eval soup_eval string_eval)

end
